theory Spec2Isabelle
  imports Complex_Main
begin

section \<open>Python values used by the relay\<close>

text \<open>
  The relay (\<^verbatim>\<open>src/proxy/relay_server.py\<close>) is a Flask application. Its Python
  \<^verbatim>\<open>str\<close> values are modelled as \<^typ>\<open>string\<close>: one \<^typ>\<open>char\<close> stands for one
  character of the Python string, with code point below 256. \<^verbatim>\<open>len\<close> is then
  \<^const>\<open>length\<close>. Code points from 256 on are outside the model.
\<close>

definition py_isspace :: "char \<Rightarrow> bool" where
  \<comment> \<open>\<^verbatim>\<open>str.isspace\<close> on one character, which is also the class \<^verbatim>\<open>\s\<close> of \<^verbatim>\<open>re\<close>
      on a \<^verbatim>\<open>str\<close> pattern: TAB, LF, VT, FF, CR, FS, GS, RS, US, SPACE, NEL, NBSP.\<close>
  "py_isspace c =
     (let n = (of_char c :: nat)
      in (9 \<le> n \<and> n \<le> 13) \<or> (28 \<le> n \<and> n \<le> 32) \<or> n = 133 \<or> n = 160)"

definition strip_chars :: "(char \<Rightarrow> bool) \<Rightarrow> string \<Rightarrow> string" where
  \<comment> \<open>\<^verbatim>\<open>str.strip\<close>: drop the characters of the class from both ends.\<close>
  "strip_chars p s = rev (dropWhile p (rev (dropWhile p s)))"

definition py_strip :: "string \<Rightarrow> string" where
  \<comment> \<open>\<^verbatim>\<open>s.strip()\<close>\<close>
  "py_strip s = strip_chars py_isspace s"

definition py_lower :: "char \<Rightarrow> char" where
  \<comment> \<open>Case folding of \<^verbatim>\<open>re.I\<close> on the characters of the model: only the ASCII
      letters A to Z have a partner among the ASCII letters.\<close>
  "py_lower c =
     (let n = (of_char c :: nat) in if 65 \<le> n \<and> n \<le> 90 then char_of (n + 32) else c)"

text \<open>
  What \<^verbatim>\<open>json.loads\<close> returns and \<^verbatim>\<open>json.dumps\<close> accepts: \<^verbatim>\<open>None\<close>, a
  \<^verbatim>\<open>bool\<close>, an \<^verbatim>\<open>int\<close>, a \<^verbatim>\<open>float\<close>, a \<^verbatim>\<open>str\<close>, a \<^verbatim>\<open>list\<close> or a
  \<^verbatim>\<open>dict\<close> with string keys (kept in insertion order).
\<close>

datatype json =
    JNull
  | JBool bool
  | JInt int
  | JFloat real
  | JStr string
  | JArr "json list"
  | JObj "(string \<times> json) list"

definition dict_get :: "(string \<times> json) list \<Rightarrow> string \<Rightarrow> json" where
  \<comment> \<open>\<^verbatim>\<open>d.get(k)\<close>: the value, or \<^verbatim>\<open>None\<close> when the key is absent.\<close>
  "dict_get d k = (case map_of d k of None \<Rightarrow> JNull | Some v \<Rightarrow> v)"

definition dict_get_default :: "(string \<times> json) list \<Rightarrow> string \<Rightarrow> json \<Rightarrow> json" where
  \<comment> \<open>\<^verbatim>\<open>d.get(k, default)\<close>\<close>
  "dict_get_default d k dflt = (case map_of d k of None \<Rightarrow> dflt | Some v \<Rightarrow> v)"

fun truthy :: "json \<Rightarrow> bool" where
  \<comment> \<open>Python's truth value of a JSON value, as \<^verbatim>\<open>x or {}\<close> tests it.\<close>
  "truthy JNull = False"
| "truthy (JBool b) = b"
| "truthy (JInt n) = (n \<noteq> 0)"
| "truthy (JFloat x) = (x \<noteq> 0)"
| "truthy (JStr s) = (s \<noteq> [])"
| "truthy (JArr xs) = (xs \<noteq> [])"
| "truthy (JObj kvs) = (kvs \<noteq> [])"

section \<open>\<^verbatim>\<open>json.dumps(payload, ensure_ascii=False)\<close>\<close>

definition hex_digit :: "nat \<Rightarrow> char" where
  "hex_digit n = (if n < 10 then char_of (48 + n) else char_of (87 + n))"

definition escape_char :: "char \<Rightarrow> string" where
  \<comment> \<open>The encoder's table for \<^verbatim>\<open>ensure_ascii=False\<close>: the backslash, the double quote
      and every character below U+0020 are escaped; all others are copied.\<close>
  "escape_char c =
     (let n = (of_char c :: nat) in
      if n = 92 then [CHR 0x5C, CHR 0x5C]
      else if n = 34 then [CHR 0x5C, CHR 0x22]
      else if n = 8 then [CHR 0x5C, CHR ''b'']
      else if n = 12 then [CHR 0x5C, CHR ''f'']
      else if n = 10 then [CHR 0x5C, CHR ''n'']
      else if n = 13 then [CHR 0x5C, CHR ''r'']
      else if n = 9 then [CHR 0x5C, CHR ''t'']
      else if n < 32 then [CHR 0x5C, CHR ''u'', CHR ''0'', CHR ''0'', hex_digit (n div 16), hex_digit (n mod 16)]
      else [c])"

definition dumps_str :: "string \<Rightarrow> string" where
  "dumps_str s = [CHR 0x22] @ concat (map escape_char s) @ [CHR 0x22]"

fun show_nat :: "nat \<Rightarrow> string" where
  "show_nat n = (if n < 10 then [char_of (48 + n)] else show_nat (n div 10) @ [char_of (48 + n mod 10)])"

definition show_int :: "int \<Rightarrow> string" where
  \<comment> \<open>\<^verbatim>\<open>int.__repr__\<close>\<close>
  "show_int i = (if i < 0 then CHR ''-'' # show_nat (nat (- i)) else show_nat (nat i))"

fun join :: "string \<Rightarrow> string list \<Rightarrow> string" where
  \<comment> \<open>\<^verbatim>\<open>sep.join(parts)\<close>\<close>
  "join sep [] = []"
| "join sep [x] = x"
| "join sep (x # y # ys) = x @ sep @ join sep (y # ys)"

text \<open>
  The serialiser with the default separators \<^verbatim>\<open>", "\<close> and \<^verbatim>\<open>": "\<close> and no
  indentation. How a \<^verbatim>\<open>float\<close> is printed (\<^verbatim>\<open>float.__repr__\<close>, and
  \<^verbatim>\<open>NaN\<close>, \<^verbatim>\<open>Infinity\<close>, \<^verbatim>\<open>-Infinity\<close>) is the parameter \<open>fr\<close>.
\<close>

fun dumps :: "(real \<Rightarrow> string) \<Rightarrow> json \<Rightarrow> string"
  and dumps_items :: "(real \<Rightarrow> string) \<Rightarrow> json list \<Rightarrow> string list"
  and dumps_members :: "(real \<Rightarrow> string) \<Rightarrow> (string \<times> json) list \<Rightarrow> string list"
where
  "dumps fr JNull = ''null''"
| "dumps fr (JBool b) = (if b then ''true'' else ''false'')"
| "dumps fr (JInt i) = show_int i"
| "dumps fr (JFloat x) = fr x"
| "dumps fr (JStr s) = dumps_str s"
| "dumps fr (JArr xs) = ''['' @ join '', '' (dumps_items fr xs) @ '']''"
| "dumps fr (JObj kvs) = ''{'' @ join '', '' (dumps_members fr kvs) @ ''}''"
| "dumps_items fr [] = []"
| "dumps_items fr (x # xs) = dumps fr x # dumps_items fr xs"
| "dumps_members fr [] = []"
| "dumps_members fr ((k, v) # kvs) = (dumps_str k @ '': '' @ dumps fr v) # dumps_members fr kvs"

section \<open>The SSE encoder\<close>

text \<open>
  \<^verbatim>\<open>_iter_sse(items)\<close>: an item is a dict with the key \<^verbatim>\<open>event\<close> and, optionally,
  \<^verbatim>\<open>data\<close> (default \<^verbatim>\<open>{}\<close>). The generator yields two strings per item.
\<close>

record sse_item =
  event :: string
  data :: "json option"

definition sse_frame :: "(real \<Rightarrow> string) \<Rightarrow> sse_item \<Rightarrow> string list" where
  "sse_frame fr it =
     [''event: '' @ event it @ [CHR 0x0A],
      ''data: '' @ dumps fr (case data it of None \<Rightarrow> JObj [] | Some p \<Rightarrow> p) @ [CHR 0x0A, CHR 0x0A]]"

definition iter_sse :: "(real \<Rightarrow> string) \<Rightarrow> sse_item list \<Rightarrow> string list" where
  "iter_sse fr items = concat (map (sse_frame fr) items)"

section \<open>The working-directory resolver\<close>

text \<open>
  \<^verbatim>\<open>_parse_cwd_from_prompt\<close> runs
  \<^verbatim>\<open>re.search(r"Working directory:\s*(.+)", text, flags=re.I)\<close>. The search tries the
  start positions from left to right. At a position the literal is compared
  case-insensitively; \<^verbatim>\<open>\s*\<close> is greedy and gives characters back when \<^verbatim>\<open>(.+)\<close>
  finds nothing to match; \<^verbatim>\<open>.\<close> matches every character but the line feed.
\<close>

definition marker :: string where
  "marker = ''working directory:''"

definition marker_at :: "string \<Rightarrow> bool" where
  \<comment> \<open>the literal of the pattern matches at the start of \<open>t\<close>\<close>
  "marker_at t = (map py_lower (take (length marker) t) = marker)"

definition match_tail :: "string \<Rightarrow> string option" where
  \<comment> \<open>\<^verbatim>\<open>\s*(.+)\<close> on the text after the literal; the result is group 1. When only white
      space follows up to the end of the text, \<^verbatim>\<open>\s*\<close> backs off to the last character
      that is not a line feed, and the group is that one character.\<close>
  "match_tail rest =
     (let after = dropWhile py_isspace rest in
      if after \<noteq> [] then Some (takeWhile (\<lambda>c. c \<noteq> CHR 0x0A) after)
      else (case dropWhile (\<lambda>c. c = CHR 0x0A) (rev rest) of
              [] \<Rightarrow> None
            | c # _ \<Rightarrow> Some [c]))"

fun re_search :: "string \<Rightarrow> string option" where
  "re_search [] = None"
| "re_search (c # cs) =
     (if marker_at (c # cs)
      then (case match_tail (drop (length marker) (c # cs)) of
              Some g \<Rightarrow> Some g
            | None \<Rightarrow> re_search cs)
      else re_search cs)"

definition strip_quotes :: "string \<Rightarrow> string" where
  \<comment> \<open>\<^verbatim>\<open>.strip('"').strip("'")\<close>\<close>
  "strip_quotes g = strip_chars (\<lambda>c. c = CHR 0x27) (strip_chars (\<lambda>c. c = CHR 0x22) g)"

definition edge_char :: "char \<Rightarrow> bool" where
  \<comment> \<open>a character that the three \<^verbatim>\<open>strip\<close> calls remove from the ends of the group\<close>
  "edge_char c = (py_isspace c \<or> c = CHR 0x22 \<or> c = CHR 0x27)"

definition parse_cwd_from_prompt :: "string \<Rightarrow> string option" where
  "parse_cwd_from_prompt text =
     (case re_search text of
        None \<Rightarrow> None
      | Some g \<Rightarrow> Some (strip_quotes (py_strip g)))"

text \<open>
  The exceptions of the model. \<open>OSError\<close> stands for an \<^verbatim>\<open>OSError\<close> that is not a
  \<^verbatim>\<open>FileNotFoundError\<close>; \<open>OtherError\<close> for any other exception.
\<close>

datatype exn =
    TypeError
  | AttributeError
  | FileNotFoundError
  | OSError
  | OtherError

text \<open>
  \<^verbatim>\<open>_select_cwd\<close>. The settings map \<^verbatim>\<open>CFG\<close>, the file system and the directory of the
  process are parameters. \<^verbatim>\<open>Path.exists\<close> answers with a truth value or raises: it
  returns \<^verbatim>\<open>False\<close> for a missing path, and lets an \<^verbatim>\<open>OSError\<close> of \<^verbatim>\<open>stat\<close> such
  as a name that is too long or a directory that may not be searched go through.
  \<^verbatim>\<open>Path.cwd()\<close> gives the directory or raises (when the directory was removed). The
  function has no \<^verbatim>\<open>try\<close>, so what these raise leaves it. A \<^verbatim>\<open>Path\<close> is kept as the
  string it was built from.
\<close>

datatype path = Path string

definition cfg_get :: "(string \<rightharpoonup> string) \<Rightarrow> string \<Rightarrow> string \<Rightarrow> string" where
  \<comment> \<open>\<^verbatim>\<open>CFG.get(k, default)\<close>\<close>
  "cfg_get cfg k dflt = (case cfg k of None \<Rightarrow> dflt | Some v \<Rightarrow> v)"

definition env_fallback ::
  "(string \<rightharpoonup> string) \<Rightarrow> (path \<Rightarrow> exn + bool) \<Rightarrow> exn + path \<Rightarrow> exn + path" where
  \<comment> \<open>steps 2 and 3 of \<^verbatim>\<open>_select_cwd\<close>, lines 60 to 64; \<open>cwd\<close> is what
      \<^verbatim>\<open>Path.cwd()\<close> does\<close>
  "env_fallback cfg exists cwd =
     (let env_cwd = py_strip (cfg_get cfg ''CODEX_WORKDIR'' [])
      in if env_cwd \<noteq> [] then
           (case exists (Path env_cwd) of
              Inl e \<Rightarrow> Inl e
            | Inr found \<Rightarrow> if found then Inr (Path env_cwd) else cwd)
         else cwd)"

definition select_cwd ::
  "(string \<rightharpoonup> string) \<Rightarrow> (path \<Rightarrow> exn + bool) \<Rightarrow> exn + path \<Rightarrow> string \<Rightarrow> exn + path" where
  \<comment> \<open>lines 56 to 64; \<^verbatim>\<open>cand and Path(cand).exists()\<close> asks the file system only for
      a candidate that is not empty\<close>
  "select_cwd cfg exists cwd prompt_text =
     (case parse_cwd_from_prompt prompt_text of
        Some cand \<Rightarrow>
          if cand \<noteq> [] then
            (case exists (Path cand) of
               Inl e \<Rightarrow> Inl e
             | Inr found \<Rightarrow> if found then Inr (Path cand) else env_fallback cfg exists cwd)
          else env_fallback cfg exists cwd
      | None \<Rightarrow> env_fallback cfg exists cwd)"

section \<open>Token counting\<close>

record token_reply =
  status :: nat
  input_tokens :: int
  output_tokens :: int

definition count_tokens :: "(real \<Rightarrow> string) \<Rightarrow> exn + json option \<Rightarrow> token_reply" where
  \<comment> \<open>The argument is what \<^verbatim>\<open>request.get_json(force=True, silent=True)\<close> does: it
      returns the parsed body, returns \<^verbatim>\<open>None\<close> for a body that does not parse, or
      raises. \<^verbatim>\<open>jsonify\<close> answers with status 200.\<close>
  "count_tokens fr got =
     (case got of
        Inl e \<Rightarrow> \<lparr>status = 200, input_tokens = 128, output_tokens = 0\<rparr>
      | Inr parsed \<Rightarrow>
          (let body = (case parsed of
                         None \<Rightarrow> JObj []
                       | Some v \<Rightarrow> if truthy v then v else JObj []);
               text = dumps fr body;
               toks = max 32 (int (length text) div 4)
           in \<lparr>status = 200, input_tokens = toks, output_tokens = 0\<rparr>))"

definition utf8_length :: "string \<Rightarrow> nat" where
  \<comment> \<open>The byte length the specification speaks of: the number of bytes of the UTF-8
      encoding, one for a character below U+0080 and two for the others of the model.\<close>
  "utf8_length s = sum_list (map (\<lambda>c. if (of_char c :: nat) < 128 then 1 else 2) s)"

section \<open>The event translator\<close>

fun is_dict :: "json \<Rightarrow> bool" where
  "is_dict (JObj d) = True"
| "is_dict _ = False"

fun is_str :: "json \<Rightarrow> bool" where
  "is_str (JStr s) = True"
| "is_str _ = False"

definition pretty :: "(string \<rightharpoonup> string) \<Rightarrow> bool" where
  \<comment> \<open>\<^verbatim>\<open>_pretty\<close>\<close>
  "pretty cfg = (cfg_get cfg ''RELAY_PRETTY_LOG'' ''1'' = ''1'')"

definition translate_try :: "bool \<Rightarrow> string \<Rightarrow> json option \<Rightarrow> real \<Rightarrow> real option \<Rightarrow> exn + (json \<times> real option)" where
  \<comment> \<open>The body of the \<^verbatim>\<open>try\<close> of lines 171 to 184: \<open>s\<close> is the stripped line,
      \<open>loaded\<close> what \<^verbatim>\<open>json.loads(s)\<close> returns (\<open>None\<close> when it raises), \<open>now\<close> the
      clock reading of line 179, \<open>ltc\<close> the variable \<^verbatim>\<open>last_turn_completed\<close>. The
      result is the pair of \<^verbatim>\<open>text_out\<close> and \<^verbatim>\<open>last_turn_completed\<close>.\<close>
  "translate_try pty s loaded now ltc =
     (case loaded of
        None \<Rightarrow> Inl OtherError
      | Some ev \<Rightarrow>
          if pty then
            (case ev of
               JObj d \<Rightarrow>
                 if dict_get d ''type'' = JStr ''item.completed'' \<and> is_dict (dict_get d ''item'') then
                   (case dict_get d ''item'' of
                      JObj it \<Rightarrow>
                        if (dict_get it ''type'' = JStr ''agent_message'' \<or> dict_get it ''type'' = JStr ''reasoning'')
                           \<and> is_str (dict_get it ''text'')
                        then Inr (dict_get it ''text'', ltc)
                        else Inr (JStr s, ltc)
                    | _ \<Rightarrow> Inr (JStr s, ltc))
                 else if dict_get d ''type'' = JStr ''turn.completed'' then
                   Inr (JStr ''[turn.completed]'', Some now)
                 else Inr (dict_get_default d ''type'' (JStr ''event''), ltc)
             | _ \<Rightarrow> Inl AttributeError)
          else Inr (JStr s, ltc))"

definition translate :: "bool \<Rightarrow> string \<Rightarrow> json option \<Rightarrow> real \<Rightarrow> real option \<Rightarrow> json \<times> real option" where
  \<comment> \<open>with \<^verbatim>\<open>text_out = s\<close> before the \<^verbatim>\<open>try\<close> and \<^verbatim>\<open>except Exception: pass\<close> after it\<close>
  "translate pty s loaded now ltc =
     (case translate_try pty s loaded now ltc of
        Inl e \<Rightarrow> (JStr s, ltc)
      | Inr r \<Rightarrow> r)"

definition add_newline :: "json \<Rightarrow> exn + string" where
  \<comment> \<open>\<^verbatim>\<open>text_out+"\n"\<close> of line 189, outside the \<^verbatim>\<open>try\<close>: only a \<^verbatim>\<open>str\<close> can be
      concatenated with a \<^verbatim>\<open>str\<close>.\<close>
  "add_newline v = (case v of JStr t \<Rightarrow> Inr (t @ [CHR 0x0A]) | _ \<Rightarrow> Inl TypeError)"

section \<open>The streaming session\<close>

text \<open>
  The items \<^verbatim>\<open>generate\<close> hands to \<^verbatim>\<open>_iter_sse\<close>, as the source writes them.
\<close>

definition message_start_item :: sse_item where
  "message_start_item =
     \<lparr>event = ''message_start'',
      data = Some (JObj [(''type'', JStr ''message_start''),
                         (''message'', JObj [(''id'', JStr ''msg_1''), (''type'', JStr ''message''),
                                             (''role'', JStr ''assistant'')])])\<rparr>"

definition content_block_start_item :: sse_item where
  "content_block_start_item =
     \<lparr>event = ''content_block_start'',
      data = Some (JObj [(''type'', JStr ''content_block_start''), (''index'', JInt 0),
                         (''content_block'', JObj [(''type'', JStr ''text''), (''text'', JStr [])])])\<rparr>"

definition delta_item :: "string \<Rightarrow> sse_item" where
  "delta_item t =
     \<lparr>event = ''content_block_delta'',
      data = Some (JObj [(''type'', JStr ''content_block_delta''), (''index'', JInt 0),
                         (''delta'', JObj [(''type'', JStr ''text_delta''), (''text'', JStr t)])])\<rparr>"

definition content_block_stop_item :: sse_item where
  "content_block_stop_item =
     \<lparr>event = ''content_block_stop'',
      data = Some (JObj [(''type'', JStr ''content_block_stop''), (''index'', JInt 0)])\<rparr>"

definition message_delta_item :: sse_item where
  "message_delta_item =
     \<lparr>event = ''message_delta'',
      data = Some (JObj [(''type'', JStr ''message_delta''), (''delta'', JObj []),
                         (''usage'', JObj [(''input_tokens'', JInt 0), (''output_tokens'', JInt 0)])])\<rparr>"

definition message_stop_item :: sse_item where
  "message_stop_item =
     \<lparr>event = ''message_stop'', data = Some (JObj [(''type'', JStr ''message_stop'')])\<rparr>"

definition opening_items :: "sse_item list" where
  "opening_items = [message_start_item, content_block_start_item]"

definition closing_items :: "sse_item list" where
  "closing_items = [content_block_stop_item, message_delta_item, message_stop_item]"

definition not_found_text :: string where
  "not_found_text = ''Codex CLI not found. Please `npm i -g @openai/codex` then `codex login`.''"

text \<open>
  One line the subprocess wrote to its standard output, decoded, together with the
  readings \<^verbatim>\<open>time.time()\<close> gives while the line is handled: at line 179 (when the
  translator records a completed turn), at line 193 (hard cutoff) and at line 198
  (idle cutoff). A reading is used only where the source makes the call.
\<close>

record stdout_line =
  raw :: string
  t_turn :: real
  t_hard :: real
  t_idle :: real

definition process_line ::
  "bool \<Rightarrow> (string \<Rightarrow> json option) \<Rightarrow> real option \<Rightarrow> stdout_line \<Rightarrow> exn + (sse_item list \<times> real option)" where
  \<comment> \<open>Lines 163 to 190: strip the line; a line that is not empty is translated and
      emitted as one delta. \<open>loads\<close> is \<^verbatim>\<open>json.loads\<close>, \<open>None\<close> where it raises.\<close>
  "process_line pty loads ltc l =
     (let s = py_strip (raw l) in
      if s \<noteq> [] then
        (case translate pty s (loads s) (t_turn l) ltc of
           (text_out, ltc') \<Rightarrow>
             (case add_newline text_out of
                Inl e \<Rightarrow> Inl e
              | Inr t \<Rightarrow> Inr ([delta_item t], ltc')))
      else Inr ([], ltc))"

definition hard_cutoff :: "int \<Rightarrow> real \<Rightarrow> stdout_line \<Rightarrow> bool" where
  \<comment> \<open>line 193\<close>
  "hard_cutoff hard_cut start l = (hard_cut \<noteq> 0 \<and> t_hard l - start > real_of_int hard_cut)"

definition idle_cutoff :: "int \<Rightarrow> real option \<Rightarrow> stdout_line \<Rightarrow> bool" where
  \<comment> \<open>line 198\<close>
  "idle_cutoff idle_after ltc l =
     (case ltc of
        None \<Rightarrow> False
      | Some t \<Rightarrow> t \<noteq> 0 \<and> t_idle l - t \<ge> real_of_int idle_after)"

datatype loop_exit = EndOfOutput | HardCutoff | IdleCutoff | Raised exn

record loop_result =
  emitted :: "sse_item list"
  exit_by :: loop_exit
  lines_read :: nat

fun read_loop ::
  "bool \<Rightarrow> (string \<Rightarrow> json option) \<Rightarrow> int \<Rightarrow> int \<Rightarrow> real \<Rightarrow> real option \<Rightarrow> stdout_line list \<Rightarrow> loop_result" where
  "read_loop pty loads hard_cut idle_after start ltc [] =
     \<lparr>emitted = [], exit_by = EndOfOutput, lines_read = 0\<rparr>"
| "read_loop pty loads hard_cut idle_after start ltc (l # ls) =
     (if raw l = [] then \<lparr>emitted = [], exit_by = EndOfOutput, lines_read = 0\<rparr>
      else
        (case process_line pty loads ltc l of
           Inl e \<Rightarrow> \<lparr>emitted = [], exit_by = Raised e, lines_read = 1\<rparr>
         | Inr (its, ltc') \<Rightarrow>
             if hard_cutoff hard_cut start l then
               \<lparr>emitted = its, exit_by = HardCutoff, lines_read = 1\<rparr>
             else if idle_cutoff idle_after ltc' l then
               \<lparr>emitted = its, exit_by = IdleCutoff, lines_read = 1\<rparr>
             else
               (let r = read_loop pty loads hard_cut idle_after start ltc' ls
                in \<lparr>emitted = its @ emitted r, exit_by = exit_by r, lines_read = Suc (lines_read r)\<rparr>)))"

text \<open>
  The loop of lines 161 to 200 reads the lines the subprocess writes until it closes its
  output (the end of the list, or the empty read that \<^verbatim>\<open>iter(readline, b"")\<close> stops
  at), a cutoff fires, or line 189 raises. A subprocess that neither writes nor closes its
  output keeps \<^verbatim>\<open>readline\<close> waiting; the model covers the runs in which every read
  returns.
\<close>

definition stderr_items :: "string \<Rightarrow> sse_item list" where
  \<comment> \<open>lines 203 to 210, on the decoded standard error\<close>
  "stderr_items tail =
     (if tail \<noteq> [] then
        (let t = drop (length tail - 2000) tail in
         if py_strip t \<noteq> [] then [delta_item ([CHR 0x0A] @ ''[Codex stderr]'' @ [CHR 0x0A] @ t)]
         else [])
      else [])"

text \<open>
  What \<^verbatim>\<open>subprocess.Popen\<close> does: it raises, or it returns the process, of which the
  session sees the lines of standard output and the standard error.
\<close>

record process =
  stdout_lines :: "stdout_line list"
  stderr_tail :: string

record stream =
  items :: "sse_item list"
  raised :: "exn option"
  stdin_written :: bool
  stdout_reads :: nat
  stderr_read :: bool

definition generate ::
  "bool \<Rightarrow> (string \<Rightarrow> json option) \<Rightarrow> int \<Rightarrow> int \<Rightarrow> exn + process \<Rightarrow> real \<Rightarrow> stream" where
  \<comment> \<open>\<open>start\<close> is the clock reading of line 157. \<open>items\<close> are the items handed to
      \<^verbatim>\<open>_iter_sse\<close> before the generator returned or raised.\<close>
  "generate pty loads hard_cut idle_after popen start =
     (case popen of
        Inl e \<Rightarrow>
          if e = FileNotFoundError then
            \<lparr>items = opening_items @ [delta_item not_found_text] @ closing_items, raised = None,
             stdin_written = False, stdout_reads = 0, stderr_read = False\<rparr>
          else
            \<lparr>items = opening_items, raised = Some e,
             stdin_written = False, stdout_reads = 0, stderr_read = False\<rparr>
      | Inr proc \<Rightarrow>
          (let r = read_loop pty loads hard_cut idle_after start None (stdout_lines proc) in
           case exit_by r of
             Raised e \<Rightarrow>
               \<lparr>items = opening_items @ emitted r, raised = Some e,
                stdin_written = True, stdout_reads = lines_read r, stderr_read = False\<rparr>
           | _ \<Rightarrow>
               \<lparr>items = opening_items @ emitted r @ stderr_items (stderr_tail proc) @ closing_items, raised = None,
                stdin_written = True, stdout_reads = lines_read r, stderr_read = True\<rparr>))"

definition idle_after_of :: "int \<Rightarrow> int" where
  \<comment> \<open>line 112, on the integer read from \<^verbatim>\<open>CODEX_IDLE_AFTER_TURN_SEC\<close>\<close>
  "idle_after_of n = max 1 n"

definition hard_cut_of :: "int \<Rightarrow> int" where
  \<comment> \<open>line 113, on the integer read from \<^verbatim>\<open>CODEX_MAX_RUN_SEC\<close>\<close>
  "hard_cut_of n = max 0 n"

definition response_body :: "(real \<Rightarrow> string) \<Rightarrow> stream \<Rightarrow> string list" where
  \<comment> \<open>the chunks of the response: every item goes through \<^verbatim>\<open>_iter_sse\<close>\<close>
  "response_body fr st = iter_sse fr (items st)"

section \<open>The SSE encoder never breaks the data line\<close>

lemma nl_code: "(c = CHR 0x0A) = ((of_char c :: nat) = 10)"
proof -
  have "(of_char c :: nat) = 10 \<longleftrightarrow> (of_char c :: nat) = of_char (CHR 0x0A)" by simp
  also have "\<dots> \<longleftrightarrow> c = CHR 0x0A" by (simp only: of_char_eq_iff)
  finally show ?thesis by simp
qed

lemma char_of_digit_not_nl: "n < 10 \<Longrightarrow> char_of (48 + n :: nat) \<noteq> CHR 0x0A"
  by (simp add: nl_code)

lemma hex_digit_not_nl: "n < 16 \<Longrightarrow> hex_digit n \<noteq> CHR 0x0A"
  by (simp add: hex_digit_def nl_code)

lemma escape_char_no_nl: "CHR 0x0A \<notin> set (escape_char c)"
proof (cases "(of_char c :: nat) < 32")
  case True
  then have "(of_char c :: nat) div 16 < 16" "(of_char c :: nat) mod 16 < 16" by simp_all
  then have "hex_digit (of_char c div 16) \<noteq> CHR 0x0A" "hex_digit (of_char c mod 16) \<noteq> CHR 0x0A"
    by (simp_all only: hex_digit_not_nl not_False_eq_True)
  then show ?thesis by (auto simp: escape_char_def Let_def)
next
  case False
  then have "c \<noteq> CHR 0x0A" by (simp add: nl_code)
  with False show ?thesis by (auto simp: escape_char_def Let_def)
qed

lemma dumps_str_no_nl: "CHR 0x0A \<notin> set (dumps_str s)"
  using escape_char_no_nl by (auto simp: dumps_str_def)

lemma show_nat_no_nl: "CHR 0x0A \<notin> set (show_nat n)"
proof (induction n rule: show_nat.induct)
  case (1 n)
  show ?case
  proof (cases "n < 10")
    case True
    then show ?thesis using char_of_digit_not_nl [of n] by (subst show_nat.simps) auto
  next
    case False
    have "n mod 10 < 10" by simp
    then have "char_of (48 + n mod 10) \<noteq> CHR 0x0A" by (rule char_of_digit_not_nl)
    with False 1 show ?thesis by (subst show_nat.simps) auto
  qed
qed

lemma show_int_no_nl: "CHR 0x0A \<notin> set (show_int i)"
  using show_nat_no_nl by (auto simp: show_int_def)

lemma join_no_nl:
  "CHR 0x0A \<notin> set sep \<Longrightarrow> (\<And>p. p \<in> set ps \<Longrightarrow> CHR 0x0A \<notin> set p) \<Longrightarrow> CHR 0x0A \<notin> set (join sep ps)"
  by (induction sep ps rule: join.induct) auto

lemma dumps_no_nl_aux:
  "(\<forall>x. CHR 0x0A \<notin> set (fr x)) \<Longrightarrow> CHR 0x0A \<notin> set (dumps fr v)"
  "(\<forall>x. CHR 0x0A \<notin> set (fr x)) \<Longrightarrow> \<forall>p \<in> set (dumps_items fr vs). CHR 0x0A \<notin> set p"
  "(\<forall>x. CHR 0x0A \<notin> set (fr x)) \<Longrightarrow> \<forall>p \<in> set (dumps_members fr kvs). CHR 0x0A \<notin> set p"
proof (induction fr v and fr vs and fr kvs rule: dumps_dumps_items_dumps_members.induct)
  case (6 fr xs)
  then show ?case using join_no_nl [of "'', ''" "dumps_items fr xs"] by simp
next
  case (7 fr kvs)
  then show ?case using join_no_nl [of "'', ''" "dumps_members fr kvs"] by simp
qed (auto simp: show_int_no_nl dumps_str_no_nl)


text \<open>
  Claim C7. For every event name and payload, the encoder yields the frame
  \<^verbatim>\<open>event: <name>\n\<close> followed by \<^verbatim>\<open>data: <json>\n\n\<close>, and the serialised JSON of the
  data line holds no line feed, whatever the strings of the payload hold. The hypothesis
  is on the one part of \<^verbatim>\<open>json.dumps\<close> taken as a parameter: the printed form of a
  \<^verbatim>\<open>float\<close> has no line feed.
\<close>

theorem iter_sse_frame_single_line:
  assumes "\<forall>x. CHR 0x0A \<notin> set (fr x)"
  shows "iter_sse fr [\<lparr>event = name, data = Some payload\<rparr>] =
           [''event: '' @ name @ [CHR 0x0A], ''data: '' @ dumps fr payload @ [CHR 0x0A, CHR 0x0A]]
         \<and> CHR 0x0A \<notin> set (dumps fr payload)"
  using assms by (simp add: iter_sse_def sse_frame_def dumps_no_nl_aux(1))


theorem iter_sse_frame_single_line_witness:
  "(\<forall>x. CHR 0x0A \<notin> set ((\<lambda>x::real. ''1.5'') x))
   \<and> iter_sse (\<lambda>x. ''1.5'')
        [\<lparr>event = ''content_block_delta'',
          data = Some (JObj [(''text'', JStr (''a'' @ [CHR 0x0A] @ ''b'')), (''n'', JFloat 1.5)])\<rparr>]
      = [''event: content_block_delta'' @ [CHR 0x0A],
         ''data: {'' @ [CHR 0x22] @ ''text'' @ [CHR 0x22] @ '': '' @ [CHR 0x22] @ ''a'' @ [CHR 0x5C] @ ''nb'' @ [CHR 0x22]
           @ '', '' @ [CHR 0x22] @ ''n'' @ [CHR 0x22] @ '': 1.5}'' @ [CHR 0x0A, CHR 0x0A]]
   \<and> CHR 0x0A \<notin> set (dumps (\<lambda>x. ''1.5'')
          (JObj [(''text'', JStr (''a'' @ [CHR 0x0A] @ ''b'')), (''n'', JFloat 1.5)]))"
  using iter_sse_frame_single_line [of "\<lambda>x. ''1.5''" "''content_block_delta''"
      "JObj [(''text'', JStr (''a'' @ [CHR 0x0A] @ ''b'')), (''n'', JFloat 1.5)]"]
  by (simp add: dumps_str_def escape_char_def)

section \<open>Properties of the working-directory resolver\<close>

lemma re_search_skip:
  "(\<forall>i<length pre. \<not> marker_at (drop i (pre @ t))) \<Longrightarrow> re_search (pre @ t) = re_search t"
proof (induction pre)
  case Nil
  then show ?case by simp
next
  case (Cons c pre)
  from Cons.prems have here: "\<not> marker_at (c # pre @ t)" by fastforce
  have "\<forall>i<length pre. \<not> marker_at (drop i (pre @ t))"
  proof (intro allI impI)
    fix i assume "i < length pre"
    then have "Suc i < length (c # pre)" by simp
    with Cons.prems have "\<not> marker_at (drop (Suc i) ((c # pre) @ t))" by blast
    then show "\<not> marker_at (drop i (pre @ t))" by simp
  qed
  with Cons.IH have "re_search (pre @ t) = re_search t" by blast
  with here show ?case by simp
qed

lemma marker_variant_length: "map py_lower m = marker \<Longrightarrow> length m = length marker"
  by (metis length_map)

lemma re_search_at_marker:
  assumes m: "map py_lower m = marker" and g: "match_tail rest = Some g"
  shows "re_search (m @ rest) = Some g"
proof -
  have len: "length m = length marker" using m by (rule marker_variant_length)
  then have "m \<noteq> []" by (auto simp: marker_def)
  then obtain c cs where mc: "m = c # cs" by (cases m) auto
  have at: "marker_at (m @ rest)" using m len by (simp add: marker_at_def)
  have dr: "drop (length marker) (m @ rest) = rest" using len by simp
  show ?thesis using at dr g unfolding mc by simp
qed

lemma match_tail_line:
  "dropWhile py_isspace rest \<noteq> [] \<Longrightarrow>
   match_tail rest = Some (takeWhile (\<lambda>c. c \<noteq> CHR 0x0A) (dropWhile py_isspace rest))"
  by (simp add: match_tail_def Let_def)

lemma parse_cwd_first_marker:
  assumes m: "map py_lower m = marker"
    and first: "\<forall>i<length pre. \<not> marker_at (drop i (pre @ m @ rest))"
    and line: "dropWhile py_isspace rest \<noteq> []"
  shows "parse_cwd_from_prompt (pre @ m @ rest) =
    Some (strip_quotes (py_strip (takeWhile (\<lambda>c. c \<noteq> CHR 0x0A) (dropWhile py_isspace rest))))"
proof -
  have "re_search (pre @ m @ rest) = re_search (m @ rest)"
    using first by (rule re_search_skip)
  also have "\<dots> = Some (takeWhile (\<lambda>c. c \<noteq> CHR 0x0A) (dropWhile py_isspace rest))"
    using m match_tail_line [OF line] by (rule re_search_at_marker)
  finally show ?thesis by (simp add: parse_cwd_from_prompt_def)
qed

lemma dropWhile_keeps:
  "xs \<noteq> [] \<Longrightarrow> \<not> P (hd xs) \<Longrightarrow> dropWhile P xs = xs"
  by (cases xs) auto

lemma dropWhile_rev_keeps:
  "s \<noteq> [] \<Longrightarrow> \<not> P (last s) \<Longrightarrow> dropWhile P (rev s) = rev s"
  by (rule dropWhile_keeps) (simp_all add: hd_rev)

lemma strip_chars_clean:
  "s \<noteq> [] \<Longrightarrow> \<not> P (hd s) \<Longrightarrow> \<not> P (last s) \<Longrightarrow> strip_chars P s = s"
proof -
  assume s: "s \<noteq> []" and h: "\<not> P (hd s)" and l: "\<not> P (last s)"
  have a: "dropWhile P s = s" using s h by (rule dropWhile_keeps)
  have b: "dropWhile P (rev s) = rev s" using s l by (rule dropWhile_rev_keeps)
  show ?thesis by (simp add: strip_chars_def a b)
qed

lemma strip_chars_wrapped:
  assumes "P c" "s \<noteq> []" "\<not> P (hd s)" "\<not> P (last s)"
  shows "strip_chars P ([c] @ s @ [c]) = s"
proof -
  have "dropWhile P ([c] @ s @ [c]) = s @ [c]"
    using assms by (cases s) auto
  moreover have "dropWhile P (rev (s @ [c])) = rev s"
    using assms dropWhile_rev_keeps [of s P] by simp
  ultimately show ?thesis by (simp add: strip_chars_def)
qed

lemma nl_isspace: "py_isspace (CHR 0x0A)"
  by (simp add: py_isspace_def)

lemma dq_not_space: "\<not> py_isspace (CHR 0x22)" and sq_not_space: "\<not> py_isspace (CHR 0x27)"
  by (simp_all add: py_isspace_def)


lemma quoted_line_strips:
  assumes q: "q = [] \<or> q = [CHR 0x22] \<or> q = [CHR 0x27]"
    and p: "p \<noteq> []" "\<not> edge_char (hd p)" "\<not> edge_char (last p)"
  shows "strip_quotes (py_strip (q @ p @ q)) = p"
proof -
  from p have ns: "\<not> py_isspace (hd p)" "\<not> py_isspace (last p)"
    and nd: "hd p \<noteq> CHR 0x22" "last p \<noteq> CHR 0x22"
    and nq: "hd p \<noteq> CHR 0x27" "last p \<noteq> CHR 0x27"
    by (simp_all add: edge_char_def)
  from q consider "q = []" | "q = [CHR 0x22]" | "q = [CHR 0x27]" by blast
  then show ?thesis
  proof cases
    case 1
    then show ?thesis using p(1) ns nd nq
      by (simp add: strip_quotes_def py_strip_def strip_chars_clean)
  next
    case 2
    have a: "py_strip (q @ p @ q) = q @ p @ q"
      unfolding py_strip_def 2 using dq_not_space by (intro strip_chars_clean) simp_all
    have b: "strip_chars (\<lambda>c. c = CHR 0x22) ([CHR 0x22] @ p @ [CHR 0x22]) = p"
      using p(1) nd by (intro strip_chars_wrapped) simp_all
    show ?thesis using a b p(1) nq unfolding strip_quotes_def 2
      by (simp add: strip_chars_clean)
  next
    case 3
    have a: "py_strip (q @ p @ q) = q @ p @ q"
      unfolding py_strip_def 3 using sq_not_space by (intro strip_chars_clean) simp_all
    have b: "strip_chars (\<lambda>c. c = CHR 0x22) ([CHR 0x27] @ p @ [CHR 0x27]) = [CHR 0x27] @ p @ [CHR 0x27]"
      by (intro strip_chars_clean) simp_all
    have c: "strip_chars (\<lambda>c. c = CHR 0x27) ([CHR 0x27] @ p @ [CHR 0x27]) = p"
      using p(1) nq by (intro strip_chars_wrapped) simp_all
    show ?thesis using a b c unfolding strip_quotes_def 3 by simp
  qed
qed


lemma dropWhile_space_prefix:
  "\<forall>c\<in>set ws. py_isspace c \<Longrightarrow> dropWhile py_isspace (ws @ t) = dropWhile py_isspace t"
  by (induction ws) auto

lemma takeWhile_line:
  "CHR 0x0A \<notin> set l \<Longrightarrow> tail = [] \<or> hd tail = CHR 0x0A \<Longrightarrow>
   takeWhile (\<lambda>c. c \<noteq> CHR 0x0A) (l @ tail) = l"
  by (cases tail) (auto simp: takeWhile_append)

text \<open>
  Claim C10. The marker is matched in any mix of upper and lower case (\<open>m\<close>), anywhere
  in the prompt (after any \<open>pre\<close> in which no match starts); the first occurrence decides,
  whatever follows its line (\<open>tail\<close>); and quotes around the path (\<open>q\<close>) are removed
  before \<^verbatim>\<open>_select_cwd\<close> asks whether the path exists.
\<close>

theorem marker_any_case_first_occurrence_unquoted:
  assumes m: "map py_lower m = marker"
    and first: "\<forall>i<length pre. \<not> marker_at (drop i (pre @ m @ ws @ q @ p @ q @ tail))"
    and ws: "\<forall>c\<in>set ws. py_isspace c"
    and q: "q = [] \<or> q = [CHR 0x22] \<or> q = [CHR 0x27]"
    and p: "p \<noteq> []" "CHR 0x0A \<notin> set p" "\<not> edge_char (hd p)" "\<not> edge_char (last p)"
    and tail: "tail = [] \<or> hd tail = CHR 0x0A"
  shows "parse_cwd_from_prompt (pre @ m @ ws @ q @ p @ q @ tail) = Some p
       \<and> select_cwd cfg exists cwd (pre @ m @ ws @ q @ p @ q @ tail) =
           (case exists (Path p) of
              Inl e \<Rightarrow> Inl e
            | Inr found \<Rightarrow> if found then Inr (Path p) else env_fallback cfg exists cwd)"
proof -
  let ?line = "q @ p @ q"
  have hdl: "hd (?line @ tail) = hd ?line" "?line \<noteq> []" using q p(1) by auto
  have "\<not> py_isspace (hd ?line)"
    using q p(1,3) dq_not_space sq_not_space by (auto simp: edge_char_def)
  then have keep: "dropWhile py_isspace (?line @ tail) = ?line @ tail"
    using hdl p(1) by (intro dropWhile_keeps) simp_all
  have dw: "dropWhile py_isspace (ws @ q @ p @ q @ tail) = ?line @ tail"
    using dropWhile_space_prefix [OF ws, of "?line @ tail"] keep by simp
  have nl: "CHR 0x0A \<notin> set ?line" using q p(2) by auto
  have tw: "takeWhile (\<lambda>c. c \<noteq> CHR 0x0A) (?line @ tail) = ?line"
    using nl tail by (rule takeWhile_line)
  have ne: "dropWhile py_isspace (ws @ q @ p @ q @ tail) \<noteq> []"
    using dw p(1) by simp
  have "parse_cwd_from_prompt (pre @ m @ (ws @ q @ p @ q @ tail)) =
          Some (strip_quotes (py_strip (takeWhile (\<lambda>c. c \<noteq> CHR 0x0A)
                 (dropWhile py_isspace (ws @ q @ p @ q @ tail)))))"
    using m first ne by (rule parse_cwd_first_marker)
  also have "\<dots> = Some p"
    using quoted_line_strips [OF q p(1,3,4)] by (simp only: dw tw)
  finally have parse: "parse_cwd_from_prompt (pre @ m @ ws @ q @ p @ q @ tail) = Some p" .
  then show ?thesis using p(1) by (simp add: select_cwd_def)
qed

theorem marker_any_case_first_occurrence_unquoted_witness:
  "parse_cwd_from_prompt
     (''Hi.'' @ [CHR 0x0A] @ ''working DIRECTORY:'' @ ''  '' @ [CHR 0x22] @ ''/tmp/x y'' @ [CHR 0x22]
        @ ([CHR 0x0A] @ ''Working directory: /other'')) = Some ''/tmp/x y''
   \<and> select_cwd Map.empty (\<lambda>d. Inr (d = Path ''/tmp/x y'')) (Inr (Path ''/srv/relay''))
     (''Hi.'' @ [CHR 0x0A] @ ''working DIRECTORY:'' @ ''  '' @ [CHR 0x22] @ ''/tmp/x y'' @ [CHR 0x22]
        @ ([CHR 0x0A] @ ''Working directory: /other'')) = Inr (Path ''/tmp/x y'')
   \<and> parse_cwd_from_prompt ''working directory: /x'' = Some ''/x''"
proof -
  have m: "map py_lower ''working DIRECTORY:'' = marker"
    by (simp add: marker_def py_lower_def char_of_eq_iff)
  have first: "\<forall>i<length (''Hi.'' @ [CHR 0x0A]). \<not> marker_at (drop i
      ((''Hi.'' @ [CHR 0x0A]) @ ''working DIRECTORY:'' @ ''  '' @ [CHR 0x22] @ ''/tmp/x y'' @ [CHR 0x22]
        @ ([CHR 0x0A] @ ''Working directory: /other'')))"
    by (simp add: marker_at_def marker_def py_lower_def All_less_Suc eval_nat_numeral)
  have ws: "\<forall>c\<in>set ''  ''. py_isspace c" by (simp add: py_isspace_def)
  have q: "[CHR 0x22] = [] \<or> [CHR 0x22] = [CHR 0x22] \<or> [CHR 0x22] = [CHR 0x27]" by simp
  have p: "''/tmp/x y'' \<noteq> []" "CHR 0x0A \<notin> set ''/tmp/x y''"
    "\<not> edge_char (hd ''/tmp/x y'')" "\<not> edge_char (last ''/tmp/x y'')"
    by (simp_all add: edge_char_def py_isspace_def)
  have tail: "[CHR 0x0A] @ ''Working directory: /other'' = [] \<or> hd ([CHR 0x0A] @ ''Working directory: /other'') = CHR 0x0A"
    by simp
  have m': "map py_lower ''working directory:'' = marker"
    by (simp add: marker_def py_lower_def)
  have first': "\<forall>i<length ([]::string). \<not> marker_at (drop i ([] @ ''working directory:'' @ '' '' @ [] @ ''/x'' @ [] @ []))"
    by simp
  have ws': "\<forall>c\<in>set '' ''. py_isspace c" by (simp add: py_isspace_def)
  have q': "([]::string) = [] \<or> ([]::string) = [CHR 0x22] \<or> ([]::string) = [CHR 0x27]" by simp
  have p': "''/x'' \<noteq> []" "CHR 0x0A \<notin> set ''/x''" "\<not> edge_char (hd ''/x'')" "\<not> edge_char (last ''/x'')"
    by (simp_all add: edge_char_def py_isspace_def)
  have tail': "([]::string) = [] \<or> hd ([]::string) = CHR 0x0A" by simp
  from marker_any_case_first_occurrence_unquoted [OF m first ws q p tail,
      of Map.empty "\<lambda>d. Inr (d = Path ''/tmp/x y'')" "Inr (Path ''/srv/relay'')"]
    marker_any_case_first_occurrence_unquoted [OF m' first' ws' q' p' tail',
      of Map.empty "\<lambda>d. Inr False" "Inr (Path ''/srv/relay'')"]
  show ?thesis by simp
qed

lemma parse_cwd_plain:
  assumes p: "p \<noteq> []" "CHR 0x0A \<notin> set p" "\<not> edge_char (hd p)" "\<not> edge_char (last p)"
  shows "parse_cwd_from_prompt (''Working directory: '' @ p) = Some p"
proof -
  have m: "map py_lower ''Working directory:'' = marker"
    by (simp add: marker_def py_lower_def char_of_eq_iff)
  have first: "\<forall>i<length ([]::string). \<not> marker_at (drop i ([] @ ''Working directory:'' @ '' '' @ p))"
    by simp
  have sp: "py_isspace (CHR '' '')" by (simp add: py_isspace_def)
  have ns: "\<not> py_isspace (hd p)" using p(3) by (simp add: edge_char_def)
  have dw: "dropWhile py_isspace ('' '' @ p) = p"
    using sp dropWhile_keeps [of p py_isspace] p(1) ns by simp
  have ne: "dropWhile py_isspace ('' '' @ p) \<noteq> []" using dw p(1) by simp
  have tw: "takeWhile (\<lambda>c. c \<noteq> CHR 0x0A) p = p" using p(2) by (auto simp: takeWhile_eq_all_conv)
  have sq: "strip_quotes (py_strip p) = p"
    using quoted_line_strips [of "[]" p] p(1,3,4) by simp
  have "parse_cwd_from_prompt ([] @ ''Working directory:'' @ '' '' @ p) =
      Some (strip_quotes (py_strip (takeWhile (\<lambda>c. c \<noteq> CHR 0x0A) (dropWhile py_isspace ('' '' @ p)))))"
    using m first ne by (rule parse_cwd_first_marker)
  then show ?thesis by (simp only: dw tw sq) simp
qed

lemma parse_tmp_x: "parse_cwd_from_prompt ''Working directory: /tmp/x'' = Some ''/tmp/x''"
  using parse_cwd_plain [of "''/tmp/x''"] by (simp add: edge_char_def py_isspace_def)

lemma parse_hello: "parse_cwd_from_prompt ''hello'' = None"
  by (simp add: parse_cwd_from_prompt_def marker_at_def marker_def py_lower_def)

lemma parse_long_name:
  "parse_cwd_from_prompt (''Working directory: /tmp/'' @ replicate 256 (CHR ''a'')) =
     Some (''/tmp/'' @ replicate 256 (CHR ''a''))"
  using parse_cwd_plain [of "''/tmp/'' @ replicate 256 (CHR ''a'')"]
  by (simp add: edge_char_def py_isspace_def)

text \<open>
  Claim C3, as the code has it. The resolver tries, in this order, the path named after
  the marker when it is not empty, the stripped \<^verbatim>\<open>CODEX_WORKDIR\<close> when it is not empty,
  and the current directory of the process. A candidate is returned when
  \<^verbatim>\<open>Path.exists\<close> answers \<^verbatim>\<open>True\<close> and passed over when it answers \<^verbatim>\<open>False\<close>. The
  function handles no exception: when \<^verbatim>\<open>Path.exists\<close> raises on the candidate at hand,
  or \<^verbatim>\<open>Path.cwd()\<close> raises in the last step, the resolver raises the same. It returns a
  path whenever these two do not raise.
\<close>

theorem select_cwd_precedence:
  "(parse_cwd_from_prompt prompt_text = Some p \<and> p \<noteq> [] \<and> exists (Path p) = Inr True
      \<longrightarrow> select_cwd cfg exists cwd prompt_text = Inr (Path p))
   \<and> (parse_cwd_from_prompt prompt_text = Some p \<and> p \<noteq> [] \<and> exists (Path p) = Inl e
      \<longrightarrow> select_cwd cfg exists cwd prompt_text = Inl e)
   \<and> ((\<forall>q. parse_cwd_from_prompt prompt_text = Some q \<longrightarrow> q = [] \<or> exists (Path q) = Inr False)
        \<and> env = py_strip (cfg_get cfg ''CODEX_WORKDIR'' []) \<and> env \<noteq> [] \<and> exists (Path env) = Inr True
      \<longrightarrow> select_cwd cfg exists cwd prompt_text = Inr (Path env))
   \<and> ((\<forall>q. parse_cwd_from_prompt prompt_text = Some q \<longrightarrow> q = [] \<or> exists (Path q) = Inr False)
        \<and> env = py_strip (cfg_get cfg ''CODEX_WORKDIR'' []) \<and> env \<noteq> [] \<and> exists (Path env) = Inl e
      \<longrightarrow> select_cwd cfg exists cwd prompt_text = Inl e)
   \<and> ((\<forall>q. parse_cwd_from_prompt prompt_text = Some q \<longrightarrow> q = [] \<or> exists (Path q) = Inr False)
        \<and> env = py_strip (cfg_get cfg ''CODEX_WORKDIR'' []) \<and> (env = [] \<or> exists (Path env) = Inr False)
      \<longrightarrow> select_cwd cfg exists cwd prompt_text = cwd)
   \<and> ((\<forall>d. \<exists>found. exists d = Inr found) \<and> cwd = Inr c
      \<longrightarrow> (\<exists>r. select_cwd cfg exists cwd prompt_text = Inr r))"
proof -
  have named: "select_cwd cfg exists cwd prompt_text = Inr (Path p)"
    if "parse_cwd_from_prompt prompt_text = Some p" "p \<noteq> []" "exists (Path p) = Inr True"
    using that by (simp add: select_cwd_def)
  have named_raises: "select_cwd cfg exists cwd prompt_text = Inl e"
    if "parse_cwd_from_prompt prompt_text = Some p" "p \<noteq> []" "exists (Path p) = Inl e"
    using that by (simp add: select_cwd_def)
  have passed: "select_cwd cfg exists cwd prompt_text = env_fallback cfg exists cwd"
    if "\<forall>q. parse_cwd_from_prompt prompt_text = Some q \<longrightarrow> q = [] \<or> exists (Path q) = Inr False"
    using that by (auto simp: select_cwd_def split: option.splits)
  have total: "\<exists>r. env_fallback cfg exists cwd = Inr r"
    if ex: "\<forall>d. \<exists>found. exists d = Inr found" and c: "cwd = Inr c"
  proof -
    obtain found where "exists (Path (py_strip (cfg_get cfg ''CODEX_WORKDIR'' []))) = Inr found"
      using ex by blast
    then show ?thesis using c by (simp add: env_fallback_def Let_def)
  qed
  have returns: "\<exists>r. select_cwd cfg exists cwd prompt_text = Inr r"
    if ex: "\<forall>d. \<exists>found. exists d = Inr found" and c: "cwd = Inr c"
  proof (cases "parse_cwd_from_prompt prompt_text")
    case None
    then show ?thesis using total [OF ex c] by (simp add: select_cwd_def)
  next
    case (Some cand)
    obtain found where "exists (Path cand) = Inr found" using ex by blast
    then show ?thesis using Some total [OF ex c] by (simp add: select_cwd_def)
  qed
  show ?thesis
    using named named_raises passed returns
    by (auto simp: env_fallback_def Let_def)
qed

theorem select_cwd_precedence_witness:
  "select_cwd [''CODEX_WORKDIR'' \<mapsto> '' /srv ''] (\<lambda>d. Inr (d = Path ''/tmp/x'' \<or> d = Path ''/srv''))
       (Inr (Path ''/home/relay'')) ''Working directory: /tmp/x'' = Inr (Path ''/tmp/x'')
   \<and> select_cwd [''CODEX_WORKDIR'' \<mapsto> '' /srv ''] (\<lambda>d. Inr (d = Path ''/srv''))
       (Inr (Path ''/home/relay'')) ''Working directory: /tmp/x'' = Inr (Path ''/srv'')
   \<and> select_cwd Map.empty (\<lambda>d. Inr (d = Path ''/srv'')) (Inr (Path ''/home/relay'')) ''hello''
       = Inr (Path ''/home/relay'')
   \<and> select_cwd Map.empty (\<lambda>d. if d = Path ''/tmp/x'' then Inl OSError else Inr True)
       (Inr (Path ''/home/relay'')) ''Working directory: /tmp/x'' = Inl OSError
   \<and> select_cwd Map.empty (\<lambda>d. Inr False) (Inl FileNotFoundError) ''hello'' = Inl FileNotFoundError"
proof -
  have e: "py_strip (cfg_get [''CODEX_WORKDIR'' \<mapsto> '' /srv ''] ''CODEX_WORKDIR'' []) = ''/srv''"
    by (simp add: cfg_get_def py_strip_def strip_chars_def py_isspace_def)
  have e0: "py_strip (cfg_get Map.empty ''CODEX_WORKDIR'' []) = []"
    by (simp add: cfg_get_def py_strip_def strip_chars_def)
  have a: "select_cwd [''CODEX_WORKDIR'' \<mapsto> '' /srv ''] (\<lambda>d. Inr (d = Path ''/tmp/x'' \<or> d = Path ''/srv''))
       (Inr (Path ''/home/relay'')) ''Working directory: /tmp/x'' = Inr (Path ''/tmp/x'')"
    using select_cwd_precedence [where prompt_text = "''Working directory: /tmp/x''" and p = "''/tmp/x''"
        and exists = "\<lambda>d. Inr (d = Path ''/tmp/x'' \<or> d = Path ''/srv'')"] parse_tmp_x by simp
  have b: "select_cwd [''CODEX_WORKDIR'' \<mapsto> '' /srv ''] (\<lambda>d. Inr (d = Path ''/srv''))
       (Inr (Path ''/home/relay'')) ''Working directory: /tmp/x'' = Inr (Path ''/srv'')"
    using select_cwd_precedence [where prompt_text = "''Working directory: /tmp/x''"
        and exists = "\<lambda>d. Inr (d = Path ''/srv'')" and env = "''/srv''"
        and cfg = "[''CODEX_WORKDIR'' \<mapsto> '' /srv '']"] parse_tmp_x e by simp
  have c: "select_cwd Map.empty (\<lambda>d. Inr (d = Path ''/srv'')) (Inr (Path ''/home/relay'')) ''hello''
       = Inr (Path ''/home/relay'')"
    using select_cwd_precedence [where prompt_text = "''hello''" and exists = "\<lambda>d. Inr (d = Path ''/srv'')"
        and env = "[]" and cfg = Map.empty and cwd = "Inr (Path ''/home/relay'')"] parse_hello e0
    by simp
  have d: "select_cwd Map.empty (\<lambda>d. if d = Path ''/tmp/x'' then Inl OSError else Inr True)
       (Inr (Path ''/home/relay'')) ''Working directory: /tmp/x'' = Inl OSError"
    using select_cwd_precedence [where prompt_text = "''Working directory: /tmp/x''" and p = "''/tmp/x''"
        and exists = "\<lambda>d. if d = Path ''/tmp/x'' then Inl OSError else Inr True" and e = OSError]
      parse_tmp_x by simp
  have f: "select_cwd Map.empty (\<lambda>d. Inr False) (Inl FileNotFoundError) ''hello'' = Inl FileNotFoundError"
    using select_cwd_precedence [where prompt_text = "''hello''" and exists = "\<lambda>d. Inr False"
        and env = "[]" and cfg = Map.empty and cwd = "Inl FileNotFoundError"] parse_hello e0
    by simp
  from a b c d f show ?thesis by simp
qed

text \<open>
  Claim C3 as stated fails in its last part, that the resolver never raises. A prompt can
  name a path whose last component has 256 characters; \<^verbatim>\<open>stat\<close> then fails with
  \<^verbatim>\<open>ENAMETOOLONG\<close>, which \<^verbatim>\<open>Path.exists\<close> does not turn into \<^verbatim>\<open>False\<close>. The resolver
  raises, although the configured directory \<^verbatim>\<open>/srv\<close> exists.
\<close>

theorem select_cwd_raises_counterexample:
  "select_cwd [''CODEX_WORKDIR'' \<mapsto> ''/srv'']
     (\<lambda>d. if d = Path (''/tmp/'' @ replicate 256 (CHR ''a'')) then Inl OSError else Inr (d = Path ''/srv''))
     (Inr (Path ''/home/relay''))
     (''Working directory: /tmp/'' @ replicate 256 (CHR ''a''))
   = Inl OSError"
  using parse_long_name by (simp add: select_cwd_def)

section \<open>Properties of token counting\<close>

lemma concat_replicate_single: "concat (replicate n [c]) = replicate n c"
  by (induction n) auto


text \<open>
  Claim C6, as the code has it. The reply has status 200 and \<^verbatim>\<open>output_tokens = 0\<close>;
  \<^verbatim>\<open>input_tokens\<close> is the larger of 32 and a quarter (rounded down) of the number of
  characters of \<^verbatim>\<open>json.dumps\<close> of the body, where a body that is empty, zero, false or
  null counts as \<^verbatim>\<open>{}\<close>. A body that does not parse counts as \<^verbatim>\<open>{}\<close> too and gives
  32. The fixed reply of 128 of the \<^verbatim>\<open>except\<close> branch is given only when
  \<^verbatim>\<open>get_json\<close> raises.
\<close>

theorem count_tokens_estimate:
  "count_tokens fr (Inr (Some body)) =
     \<lparr>status = 200,
      input_tokens = max 32 (int (length (dumps fr (if truthy body then body else JObj []))) div 4),
      output_tokens = 0\<rparr>
   \<and> count_tokens fr (Inr None) = \<lparr>status = 200, input_tokens = 32, output_tokens = 0\<rparr>
   \<and> count_tokens fr (Inl e) = \<lparr>status = 200, input_tokens = 128, output_tokens = 0\<rparr>"
  by (simp add: count_tokens_def Let_def)

lemma dumps_str_wide:
  "dumps_str (replicate n (CHR 0xE9)) = [CHR 0x22] @ replicate n (CHR 0xE9) @ [CHR 0x22]"
  by (simp add: dumps_str_def escape_char_def concat_replicate_single)

lemma utf8_length_append: "utf8_length (a @ b) = utf8_length a + utf8_length b"
  by (simp add: utf8_length_def)

lemma utf8_length_wide: "utf8_length (replicate n (CHR 0xE9)) = 2 * n"
  by (induction n) (simp_all add: utf8_length_def)

lemma utf8_length_Cons:
  "utf8_length (c # s) = (if (of_char c :: nat) < 128 then 1 else 2) + utf8_length s"
  and utf8_length_Nil: "utf8_length [] = 0"
  by (simp_all add: utf8_length_def)

text \<open>
  Claim C6 as stated fails twice. A body that does not parse is answered with 32, not with
  128. And the length is counted in characters, not in bytes: for a JSON string of 130
  letters \<^verbatim>\<open>U+00E9\<close> the code answers 33, while a quarter of the 262 bytes of the
  serialised body is 65.
\<close>

theorem count_tokens_unparsable_counterexample:
  "input_tokens (count_tokens (\<lambda>x. ''0.0'') (Inr None)) = 32
   \<and> input_tokens (count_tokens (\<lambda>x. ''0.0'') (Inr None)) \<noteq> 128
   \<and> input_tokens (count_tokens (\<lambda>x. ''0.0'') (Inr (Some (JStr (replicate 130 (CHR 0xE9)))))) = 33
   \<and> max 32 (int (utf8_length (dumps (\<lambda>x. ''0.0'') (JStr (replicate 130 (CHR 0xE9))))) div 4) = 65"
  by (simp add: count_tokens_def Let_def dumps_str_wide utf8_length_wide utf8_length_append
      utf8_length_Cons utf8_length_Nil)

section \<open>Properties of the translator\<close>



text \<open>
  Claim C8. In pretty mode, a line that parses to an object of type \<^verbatim>\<open>item.completed\<close>
  whose \<^verbatim>\<open>item\<close> is a dict, but whose nested type is neither \<^verbatim>\<open>agent_message\<close> nor
  \<^verbatim>\<open>reasoning\<close>, or whose \<^verbatim>\<open>text\<close> is not a string, is emitted as it was read: the
  delta holds the line itself, not the text of the item and not the name of the kind.
\<close>

theorem unrecognised_item_passes_raw_line:
  assumes "dict_get ev ''type'' = JStr ''item.completed''"
    and "dict_get ev ''item'' = JObj it"
    and "\<not> ((dict_get it ''type'' = JStr ''agent_message'' \<or> dict_get it ''type'' = JStr ''reasoning'')
            \<and> is_str (dict_get it ''text''))"
    and "py_strip (raw l) = s" and "s \<noteq> []" and "loads s = Some (JObj ev)"
  shows "translate True s (Some (JObj ev)) now ltc = (JStr s, ltc)
       \<and> process_line True loads ltc l = Inr ([delta_item (s @ [CHR 0x0A])], ltc)"
proof -
  have tr: "translate True s (Some (JObj ev)) now ltc = (JStr s, ltc)" for now
    using assms(1-3) by (auto simp: translate_def translate_try_def)
  show ?thesis using assms(4-6) tr
    by (simp add: process_line_def Let_def add_newline_def)
qed

lemma py_strip_line:
  "s \<noteq> [] \<Longrightarrow> \<not> py_isspace (hd s) \<Longrightarrow> \<not> py_isspace (last s) \<Longrightarrow> py_strip (s @ [CHR 0x0A]) = s"
proof -
  assume s: "s \<noteq> []" and h: "\<not> py_isspace (hd s)" and l: "\<not> py_isspace (last s)"
  have nl: "py_isspace (CHR 0x0A)" by (simp add: py_isspace_def)
  have a: "dropWhile py_isspace (s @ [CHR 0x0A]) = s @ [CHR 0x0A]" using s h by (cases s) auto
  have b: "dropWhile py_isspace (rev s) = rev s" using s l by (rule dropWhile_rev_keeps)
  show ?thesis by (simp add: py_strip_def strip_chars_def a b nl)
qed

theorem unrecognised_item_passes_raw_line_witness:
  \<open>translate True ''{"type":"item.completed","item":{"type":"command_execution","text":7}}''
      (Some (JObj [(''type'', JStr ''item.completed''),
                   (''item'', JObj [(''type'', JStr ''command_execution''), (''text'', JInt 7)])])) 3 None
     = (JStr ''{"type":"item.completed","item":{"type":"command_execution","text":7}}'', None)
   \<and> process_line True
      (\<lambda>x. if x = ''{"type":"item.completed","item":{"type":"command_execution","text":7}}''
            then Some (JObj [(''type'', JStr ''item.completed''),
                   (''item'', JObj [(''type'', JStr ''command_execution''), (''text'', JInt 7)])])
            else None)
      None
      \<lparr>raw = ''{"type":"item.completed","item":{"type":"command_execution","text":7}}'' @ [CHR 0x0A],
       t_turn = 3, t_hard = 3, t_idle = 3\<rparr>
     = Inr ([delta_item (''{"type":"item.completed","item":{"type":"command_execution","text":7}}'' @ [CHR 0x0A])],
            None)\<close>
proof -
  let ?s = \<open>''{"type":"item.completed","item":{"type":"command_execution","text":7}}''\<close>
  let ?it = "[(''type'', JStr ''command_execution''), (''text'', JInt 7)]"
  let ?ev = "[(''type'', JStr ''item.completed''), (''item'', JObj ?it)]"
  let ?l = "\<lparr>raw = ?s @ [CHR 0x0A], t_turn = 3, t_hard = 3, t_idle = 3\<rparr>"
  let ?loads = "\<lambda>x. if x = ?s then Some (JObj ?ev) else None"
  have 1: "dict_get ?ev ''type'' = JStr ''item.completed''" by (simp add: dict_get_def)
  have 2: "dict_get ?ev ''item'' = JObj ?it" by (simp add: dict_get_def)
  have 3: "\<not> ((dict_get ?it ''type'' = JStr ''agent_message'' \<or> dict_get ?it ''type'' = JStr ''reasoning'')
            \<and> is_str (dict_get ?it ''text''))" by (simp add: dict_get_def)
  have 4: "py_strip (raw ?l) = ?s" using py_strip_line [of ?s] by (simp add: py_isspace_def)
  have 5: "?s \<noteq> []" by simp
  have 6: "?loads ?s = Some (JObj ?ev)" by simp
  show ?thesis
    using unrecognised_item_passes_raw_line [where ev = ?ev and it = ?it and l = ?l and s = ?s
        and loads = ?loads and now = 3 and ltc = None, OF 1 2 3 4 5 6] by simp
qed

text \<open>
  Claim C9. In pretty mode, a line that parses as JSON to something other than an object
  (a number, a string, a list, a boolean or null) raises inside the \<^verbatim>\<open>try\<close> only: the
  \<^verbatim>\<open>AttributeError\<close> of \<^verbatim>\<open>ev.get\<close> is caught, and the line itself is emitted as the
  text of the delta.
\<close>

theorem non_object_json_passes_raw_line:
  assumes "loads s = Some v" and "\<not> is_dict v"
    and "py_strip (raw l) = s" and "s \<noteq> []"
  shows "translate_try True s (loads s) (t_turn l) ltc = Inl AttributeError
       \<and> process_line True loads ltc l = Inr ([delta_item (s @ [CHR 0x0A])], ltc)"
proof -
  have tt: "translate_try True s (Some v) (t_turn l) ltc = Inl AttributeError"
    using assms(2) by (cases v) (simp_all add: translate_try_def)
  then have "translate True s (Some v) (t_turn l) ltc = (JStr s, ltc)"
    by (simp add: translate_def)
  then show ?thesis using assms(1,3,4) tt
    by (simp add: process_line_def Let_def add_newline_def)
qed


theorem non_object_json_passes_raw_line_witness:
  "translate_try True ''[1, 2]'' ((\<lambda>x. if x = ''[1, 2]'' then Some (JArr [JInt 1, JInt 2]) else None) ''[1, 2]'')
      (t_turn \<lparr>raw = ''[1, 2]'' @ [CHR 0x0A], t_turn = 3, t_hard = 3, t_idle = 3\<rparr>) None
     = Inl AttributeError
   \<and> process_line True (\<lambda>x. if x = ''[1, 2]'' then Some (JArr [JInt 1, JInt 2]) else None) None
      \<lparr>raw = ''[1, 2]'' @ [CHR 0x0A], t_turn = 3, t_hard = 3, t_idle = 3\<rparr>
     = Inr ([delta_item (''[1, 2]'' @ [CHR 0x0A])], None)"
proof -
  let ?s = "''[1, 2]''"
  let ?l = "\<lparr>raw = ?s @ [CHR 0x0A], t_turn = 3, t_hard = 3, t_idle = 3\<rparr>"
  let ?loads = "\<lambda>x. if x = ?s then Some (JArr [JInt 1, JInt 2]) else None"
  have 1: "?loads ?s = Some (JArr [JInt 1, JInt 2])" by simp
  have 2: "\<not> is_dict (JArr [JInt 1, JInt 2])" by simp
  have 3: "py_strip (raw ?l) = ?s" using py_strip_line [of ?s] by (simp add: py_isspace_def)
  have 4: "?s \<noteq> []" by simp
  show ?thesis
    using non_object_json_passes_raw_line [where loads = ?loads and s = ?s and l = ?l
        and v = "JArr [JInt 1, JInt 2]" and ltc = None, OF 1 2 3 4] by simp
qed

section \<open>Cutoffs and the launch failure\<close>

text \<open>
  Claim C4, as the code has it. After a line has been handled, the loop stops when the
  configured hard limit \<open>h\<close> is positive (zero and negative values switch the limit off)
  and the time since the start of the stream exceeds it; or when a last-turn-completed
  time has been recorded and the time since then has reached the idle limit, which is the
  configured value \<open>i\<close> raised to at least 1. Otherwise the loop goes on to the next read.
\<close>

theorem read_loop_cutoffs:
  assumes "raw l \<noteq> []" and "process_line pty loads ltc l = Inr (its, ltc')"
  shows "read_loop pty loads (hard_cut_of h) (idle_after_of i) start ltc (l # ls) =
     (if 0 < h \<and> t_hard l - start > real_of_int h then
        \<lparr>emitted = its, exit_by = HardCutoff, lines_read = 1\<rparr>
      else if (case ltc' of None \<Rightarrow> False
               | Some t \<Rightarrow> t \<noteq> 0 \<and> t_idle l - t \<ge> real_of_int (max 1 i)) then
        \<lparr>emitted = its, exit_by = IdleCutoff, lines_read = 1\<rparr>
      else
        (let r = read_loop pty loads (hard_cut_of h) (idle_after_of i) start ltc' ls
         in \<lparr>emitted = its @ emitted r, exit_by = exit_by r, lines_read = Suc (lines_read r)\<rparr>))"
proof -
  have hc: "hard_cutoff (hard_cut_of h) start l = (0 < h \<and> t_hard l - start > real_of_int h)"
    by (auto simp: hard_cutoff_def hard_cut_of_def max_def)
  have ic: "idle_cutoff (idle_after_of i) ltc' l =
      (case ltc' of None \<Rightarrow> False | Some t \<Rightarrow> t \<noteq> 0 \<and> t_idle l - t \<ge> real_of_int (max 1 i))"
    by (simp add: idle_cutoff_def idle_after_of_def)
  show ?thesis using assms by (simp add: hc ic)
qed

lemma strip_turn_line:
  \<open>py_strip (''{"type":"turn.completed"}'' @ [CHR 0x0A]) = ''{"type":"turn.completed"}''\<close>
  by (rule py_strip_line) (simp_all add: py_isspace_def)

lemma strip_late_line: "py_strip (''late'' @ [CHR 0x0A]) = ''late''"
  by (rule py_strip_line) (simp_all add: py_isspace_def)

theorem read_loop_cutoffs_witness:
  \<open>read_loop True
      (\<lambda>x. if x = ''{"type":"turn.completed"}'' then Some (JObj [(''type'', JStr ''turn.completed'')]) else None)
      (hard_cut_of 0) (idle_after_of 0) 99 None
      [\<lparr>raw = ''{"type":"turn.completed"}'' @ [CHR 0x0A], t_turn = 100, t_hard = 100, t_idle = 100.5\<rparr>,
       \<lparr>raw = ''late'' @ [CHR 0x0A], t_turn = 102, t_hard = 102, t_idle = 102\<rparr>]
    = \<lparr>emitted = [delta_item (''[turn.completed]'' @ [CHR 0x0A]), delta_item (''late'' @ [CHR 0x0A])],
       exit_by = IdleCutoff, lines_read = 2\<rparr>\<close>
proof -
  let ?loads = \<open>\<lambda>x. if x = ''{"type":"turn.completed"}'' then Some (JObj [(''type'', JStr ''turn.completed'')]) else None\<close>
  let ?l1 = \<open>\<lparr>raw = ''{"type":"turn.completed"}'' @ [CHR 0x0A], t_turn = 100, t_hard = 100, t_idle = 100.5\<rparr>\<close>
  let ?l2 = "\<lparr>raw = ''late'' @ [CHR 0x0A], t_turn = 102, t_hard = 102, t_idle = 102\<rparr>"
  have r1: "raw ?l1 \<noteq> []" and r2: "raw ?l2 \<noteq> []" by simp_all
  have p1: "process_line True ?loads None ?l1 = Inr ([delta_item (''[turn.completed]'' @ [CHR 0x0A])], Some 100)"
    using strip_turn_line
    by (simp add: process_line_def translate_def translate_try_def dict_get_def add_newline_def)
  have p2: "process_line True ?loads (Some 100) ?l2 = Inr ([delta_item (''late'' @ [CHR 0x0A])], Some 100)"
    using strip_late_line
    by (simp add: process_line_def translate_def translate_try_def add_newline_def)
  have s2: "read_loop True ?loads (hard_cut_of 0) (idle_after_of 0) 99 (Some 100) [?l2] =
      \<lparr>emitted = [delta_item (''late'' @ [CHR 0x0A])], exit_by = IdleCutoff, lines_read = 1\<rparr>"
    using read_loop_cutoffs [where l = ?l2 and pty = True and loads = ?loads and ltc = "Some 100"
        and h = 0 and i = 0 and start = 99 and ls = "[]", OF r2 p2]
    by simp
  show ?thesis
    using read_loop_cutoffs [where l = ?l1 and pty = True and loads = ?loads and ltc = None
        and h = 0 and i = 0 and start = 99 and ls = "[?l2]", OF r1 p1] s2
    by simp
qed

text \<open>
  Claim C4 as stated fails at the boundary: with an idle limit of 1 second and a line
  handled exactly 1 second after the completed turn, the elapsed time does not exceed the
  limit, and the loop stops all the same, leaving the next line unread. It also fails in
  raw mode, where a \<^verbatim>\<open>turn.completed\<close> line is passed through without recording its time:
  400 seconds later the loop is still reading.
\<close>

theorem idle_cutoff_boundary_counterexample:
  \<open>\<not> (t_idle \<lparr>raw = ''{"type":"turn.completed"}'' @ [CHR 0x0A], t_turn = 100, t_hard = 100, t_idle = 101\<rparr>
        - 100 > real_of_int (idle_after_of 1))
   \<and> read_loop True
      (\<lambda>x. if x = ''{"type":"turn.completed"}'' then Some (JObj [(''type'', JStr ''turn.completed'')]) else None)
      (hard_cut_of 0) (idle_after_of 1) 99 None
      [\<lparr>raw = ''{"type":"turn.completed"}'' @ [CHR 0x0A], t_turn = 100, t_hard = 100, t_idle = 101\<rparr>,
       \<lparr>raw = ''late'' @ [CHR 0x0A], t_turn = 102, t_hard = 102, t_idle = 102\<rparr>]
    = \<lparr>emitted = [delta_item (''[turn.completed]'' @ [CHR 0x0A])], exit_by = IdleCutoff, lines_read = 1\<rparr>
   \<and> read_loop False
      (\<lambda>x. if x = ''{"type":"turn.completed"}'' then Some (JObj [(''type'', JStr ''turn.completed'')]) else None)
      (hard_cut_of 0) (idle_after_of 1) 99 None
      [\<lparr>raw = ''{"type":"turn.completed"}'' @ [CHR 0x0A], t_turn = 100, t_hard = 100, t_idle = 500\<rparr>,
       \<lparr>raw = ''late'' @ [CHR 0x0A], t_turn = 600, t_hard = 600, t_idle = 600\<rparr>]
    = \<lparr>emitted = [delta_item (''{"type":"turn.completed"}'' @ [CHR 0x0A]), delta_item (''late'' @ [CHR 0x0A])],
       exit_by = EndOfOutput, lines_read = 2\<rparr>\<close>
  using strip_turn_line strip_late_line
  by (simp add: process_line_def translate_def translate_try_def dict_get_def add_newline_def
      hard_cutoff_def idle_cutoff_def hard_cut_of_def idle_after_of_def)


lemma translate_turn_time:
  "snd (translate pty s loaded now ltc) =
     (if pty \<and> (\<exists>d. loaded = Some (JObj d) \<and> dict_get d ''type'' = JStr ''turn.completed'')
      then Some now else ltc)"
proof (cases loaded)
  case None
  then show ?thesis by (simp add: translate_def translate_try_def)
next
  case (Some ev)
  then show ?thesis
    by (cases ev) (auto simp: translate_def translate_try_def split: json.splits)
qed

lemma process_line_turn_time:
  assumes "process_line pty loads ltc l = Inr (its, ltc')"
  shows "ltc' =
     (if pty \<and> py_strip (raw l) \<noteq> []
         \<and> (\<exists>d. loads (py_strip (raw l)) = Some (JObj d) \<and> dict_get d ''type'' = JStr ''turn.completed'')
      then Some (t_turn l) else ltc)"
proof (cases "py_strip (raw l) = []")
  case True
  with assms show ?thesis by (simp add: process_line_def)
next
  case False
  obtain v x where tr: "translate pty (py_strip (raw l)) (loads (py_strip (raw l))) (t_turn l) ltc = (v, x)"
    by (cases "translate pty (py_strip (raw l)) (loads (py_strip (raw l))) (t_turn l) ltc")
  with assms False have "ltc' = x"
    by (auto simp: process_line_def Let_def split: sum.splits)
  moreover have "x = snd (translate pty (py_strip (raw l)) (loads (py_strip (raw l))) (t_turn l) ltc)"
    using tr by simp
  ultimately show ?thesis using False by (simp only: translate_turn_time) simp
qed

section \<open>The frame of the stream\<close>

text \<open>
  A stream whose generator does not raise is framed: the two opening events, deltas only,
  the three closing events. This covers the end of the output, both cutoffs and the launch
  failure that is caught. The generator raises exactly when \<^verbatim>\<open>Popen\<close> raises something
  other than \<^verbatim>\<open>FileNotFoundError\<close>, or when a line makes line 189 raise.
\<close>

lemma process_line_items:
  "process_line pty loads ltc l = Inr (its, ltc') \<Longrightarrow> \<forall>it\<in>set its. event it = ''content_block_delta''"
  by (auto simp: process_line_def Let_def delta_item_def split: if_splits prod.splits sum.splits)

lemma read_loop_emits_deltas:
  "\<forall>it\<in>set (emitted (read_loop pty loads hard_cut idle_after start ltc ls)). event it = ''content_block_delta''"
proof (induction ls arbitrary: ltc)
  case Nil
  then show ?case by simp
next
  case (Cons l ls)
  show ?case
  proof (cases "process_line pty loads ltc l")
    case (Inl e)
    then show ?thesis by simp
  next
    case (Inr r)
    obtain its ltc' where r: "r = (its, ltc')" by (cases r)
    have d: "\<forall>it\<in>set its. event it = ''content_block_delta''"
      using Inr r process_line_items by blast
    show ?thesis using Inr r d Cons.IH [of ltc'] by (auto simp: Let_def)
  qed
qed

lemma stderr_items_deltas: "\<forall>it\<in>set (stderr_items tail). event it = ''content_block_delta''"
  by (simp add: stderr_items_def Let_def delta_item_def)

lemma generate_framed_unless_raised:
  assumes "raised (generate pty loads hard_cut idle_after popen start) = None"
  shows "\<exists>mid. items (generate pty loads hard_cut idle_after popen start) = opening_items @ mid @ closing_items
           \<and> (\<forall>it\<in>set mid. event it = ''content_block_delta'')"
proof (cases popen)
  case (Inl e)
  with assms have "e = FileNotFoundError" by (simp add: generate_def split: if_splits)
  with Inl have "items (generate pty loads hard_cut idle_after popen start) =
      opening_items @ [delta_item not_found_text] @ closing_items"
    by (simp add: generate_def)
  moreover have "\<forall>it\<in>set [delta_item not_found_text]. event it = ''content_block_delta''"
    by (simp add: delta_item_def)
  ultimately show ?thesis by blast
next
  case (Inr proc)
  let ?r = "read_loop pty loads hard_cut idle_after start None (stdout_lines proc)"
  from assms Inr have "items (generate pty loads hard_cut idle_after popen start) =
      opening_items @ (emitted ?r @ stderr_items (stderr_tail proc)) @ closing_items"
    by (cases "exit_by ?r") (simp_all add: generate_def Let_def)
  moreover have "\<forall>it\<in>set (emitted ?r @ stderr_items (stderr_tail proc)). event it = ''content_block_delta''"
    using read_loop_emits_deltas [of pty loads hard_cut idle_after start None "stdout_lines proc"]
      stderr_items_deltas [of "stderr_tail proc"] by auto
  ultimately show ?thesis by blast
qed

lemma generate_raised_iff:
  "raised (generate pty loads hard_cut idle_after popen start) = Some e \<longleftrightarrow>
     (popen = Inl e \<and> e \<noteq> FileNotFoundError)
     \<or> (\<exists>proc. popen = Inr proc
          \<and> exit_by (read_loop pty loads hard_cut idle_after start None (stdout_lines proc)) = Raised e)"
proof (cases popen)
  case (Inl x)
  then show ?thesis by (auto simp: generate_def)
next
  case (Inr proc)
  then show ?thesis
    by (cases "exit_by (read_loop pty loads hard_cut idle_after start None (stdout_lines proc))")
       (simp_all add: generate_def Let_def)
qed

lemma add_newline_raises_iff: "add_newline v = Inl e \<longleftrightarrow> e = TypeError \<and> \<not> is_str v"
  by (cases v) (auto simp: add_newline_def)

lemma is_str_conv: "is_str v \<longleftrightarrow> (\<exists>t. v = JStr t)"
  by (cases v) auto

lemma is_dict_conv: "is_dict v \<longleftrightarrow> (\<exists>d. v = JObj d)"
  by (cases v) auto

lemma translate_not_str_iff:
  "\<not> is_str (fst (translate pty s loaded now ltc)) \<longleftrightarrow>
     pty \<and> (\<exists>d. loaded = Some (JObj d)
            \<and> \<not> (dict_get d ''type'' = JStr ''item.completed'' \<and> is_dict (dict_get d ''item''))
            \<and> dict_get d ''type'' \<noteq> JStr ''turn.completed''
            \<and> \<not> is_str (dict_get_default d ''type'' (JStr ''event'')))"
proof (cases loaded)
  case None
  then show ?thesis by (simp add: translate_def translate_try_def)
next
  case (Some ev)
  show ?thesis
  proof (cases pty)
    case False
    with Some show ?thesis by (simp add: translate_def translate_try_def)
  next
    case True
    show ?thesis
    proof (cases ev)
      case (JObj d)
      show ?thesis
      proof (cases "dict_get d ''type'' = JStr ''item.completed'' \<and> is_dict (dict_get d ''item'')")
        case ic: True
        then obtain it where it: "dict_get d ''item'' = JObj it" by (auto simp: is_dict_conv)
        show ?thesis using Some True JObj ic it
          by (auto simp: translate_def translate_try_def is_str_conv)
      next
        case nic: False
        show ?thesis
        proof (cases "dict_get d ''type'' = JStr ''turn.completed''")
          case tc: True
          with Some True JObj nic show ?thesis by (simp add: translate_def translate_try_def)
        next
          case ntc: False
          with Some True JObj nic show ?thesis by (auto simp: translate_def translate_try_def)
        qed
      qed
    qed (use Some True in \<open>simp_all add: translate_def translate_try_def\<close>)
  qed
qed

lemma process_line_raises_iff:
  "process_line pty loads ltc l = Inl e \<longleftrightarrow>
     e = TypeError \<and> pty \<and> py_strip (raw l) \<noteq> []
     \<and> (\<exists>d. loads (py_strip (raw l)) = Some (JObj d)
            \<and> \<not> (dict_get d ''type'' = JStr ''item.completed'' \<and> is_dict (dict_get d ''item''))
            \<and> dict_get d ''type'' \<noteq> JStr ''turn.completed''
            \<and> \<not> is_str (dict_get_default d ''type'' (JStr ''event'')))"
proof (cases "py_strip (raw l) = []")
  case True
  then show ?thesis by (simp add: process_line_def)
next
  case False
  obtain v ltc' where tr: "translate pty (py_strip (raw l)) (loads (py_strip (raw l))) (t_turn l) ltc = (v, ltc')"
    by (cases "translate pty (py_strip (raw l)) (loads (py_strip (raw l))) (t_turn l) ltc")
  have "process_line pty loads ltc l = Inl e \<longleftrightarrow> add_newline v = Inl e"
    using False tr by (simp add: process_line_def Let_def split: sum.splits)
  also have "\<dots> \<longleftrightarrow> e = TypeError \<and> \<not> is_str v" by (rule add_newline_raises_iff)
  also have "\<not> is_str v \<longleftrightarrow> \<not> is_str (fst (translate pty (py_strip (raw l)) (loads (py_strip (raw l))) (t_turn l) ltc))"
    using tr by simp
  finally show ?thesis using False by (simp only: translate_not_str_iff) blast
qed

text \<open>
  Claim C1 fails on the code. In pretty mode, a line that parses to an object whose
  \<^verbatim>\<open>type\<close> is not a string (here the number 5) makes \<^verbatim>\<open>text_out+"\n"\<close> raise a
  \<^verbatim>\<open>TypeError\<close> outside the \<^verbatim>\<open>try\<close>: the generator stops after the two opening events,
  and the three closing events are never sent.
\<close>

theorem stream_aborts_on_non_string_type:
  \<open>generate True (\<lambda>x. if x = ''{"type": 5}'' then Some (JObj [(''type'', JInt 5)]) else None)
      (hard_cut_of 0) (idle_after_of 10)
      (Inr \<lparr>stdout_lines = [\<lparr>raw = ''{"type": 5}'' @ [CHR 0x0A], t_turn = 1, t_hard = 1, t_idle = 1\<rparr>],
            stderr_tail = []\<rparr>) 0
    = \<lparr>items = [message_start_item, content_block_start_item], raised = Some TypeError,
       stdin_written = True, stdout_reads = 1, stderr_read = False\<rparr>\<close>
proof -
  have s: \<open>py_strip (''{"type": 5}'' @ [CHR 0x0A]) = ''{"type": 5}''\<close>
    by (rule py_strip_line) (simp_all add: py_isspace_def)
  show ?thesis using s
    by (simp add: generate_def process_line_def translate_def translate_try_def dict_get_def
        dict_get_default_def add_newline_def opening_items_def)
qed

end
